theory Spec2Isabelle
  imports Main "HOL-Library.Word" "HOL-Library.Sublist"
begin

section \<open>The watch command of ginkgo: data\<close>

text \<open>
  The development embeds \<^verbatim>\<open>ginkgo/watch/watch_command.go\<close>. \<^verbatim>\<open>WatchSpecs\<close> drives
  collaborators that live in other packages (suite discovery, the delta tracker, the
  compiler and runner of a suite, the interrupt handler, the clock). Their results are not
  determined by the watch command, so they are parameters of the model: each one is a
  function on an abstract world \<open>'w\<close> that returns its result and the next world.
\<close>

text \<open>\<^verbatim>\<open>internal.TestSuite\<close>: the fields that \<^verbatim>\<open>watch_command.go\<close> reads.\<close>

record TestSuite =
  Path :: string
  PackageName :: string
  CompilationError :: "string option"
  Passed :: bool

text \<open>
  The tracker's own suite object (the elements of \<^verbatim>\<open>delta.NewSuites\<close> and of
  \<^verbatim>\<open>delta.ModifiedSuites()\<close>): the field \<^verbatim>\<open>Suite\<close> and the text that the method
  \<^verbatim>\<open>Description()\<close> returns.
\<close>

record tracked_suite =
  Suite :: TestSuite
  Description :: string

text \<open>
  The value \<^verbatim>\<open>Delta\<close> returns. The method \<^verbatim>\<open>ModifiedSuites()\<close> is the field
  \<open>ModifiedSuites\<close>.
\<close>

record Delta =
  NewSuites :: "tracked_suite list"
  ModifiedPackages :: "string list"
  ModifiedSuites :: "tracked_suite list"

text \<open>The two cases of the \<^verbatim>\<open>select\<close> statement of the watch loop.\<close>

datatype select_case = Ticker_C | InterruptChannel

text \<open>What the command prints, line by line, with the text formatting left out.\<close>

datatype printed =
    Identified nat int
  | Watching nat
  | SuiteLine string
  | FailedToWatch string string
  | DetectedNew nat
  | DetectedChangesIn
  | PackageLine string
  | WillRunSuites nat
  | BlankLine
  | ErrorText string
  | Done bool
  | Message string

text \<open>
  The trace: one event for each call of a collaborator and for each printed line, in the
  order in which they happen. \<open>Call_WasInterrupted\<close> and \<open>Call_select\<close> carry the
  answer; \<open>Call_RunCompiledSuite\<close> carries the random seed and the succinct flag of the
  configuration that is passed to the runner.
\<close>

datatype event =
    Call_FindSuites
  | Call_NewDeltaTracker int
  | Call_Delta "TestSuite list"
  | Call_WillRun TestSuite
  | Call_WasInterrupted bool
  | Call_select select_case
  | Call_NewTicker
  | Call_CompileSuite TestSuite
  | Call_RunCompiledSuite TestSuite "64 word" bool
  | Call_Cleanup TestSuite
  | Call_Now
  | Call_FinalizeProfilesAndReports "TestSuite list"
  | Print printed

text \<open>
  The collaborators. \<open>FindSuites\<close> is \<^verbatim>\<open>internal.FindSuites(args, w.cliConfig, false)\<close>
  (its second result is dropped by both callers); \<open>DeltaTracker_Delta\<close> returns the
  delta and the error map, the map as the list of its entries in the order in which
  \<^verbatim>\<open>range\<close> visits them; \<open>Now_Unix\<close> is \<^verbatim>\<open>time.Now().Unix()\<close>;
  \<open>FinalizeProfilesAndReportsForSuites\<close> returns the messages and the error, if any;
  \<open>regexp_compiles\<close> says whether \<^verbatim>\<open>regexp.MustCompile\<close> accepts the expression.
\<close>

record 'w collaborators =
  FindSuites :: "'w \<Rightarrow> TestSuite list \<times> 'w"
  regexp_compiles :: "string \<Rightarrow> bool"
  NewDeltaTracker :: "int \<Rightarrow> string \<Rightarrow> 'w \<Rightarrow> 'w"
  DeltaTracker_Delta :: "TestSuite list \<Rightarrow> 'w \<Rightarrow> (Delta \<times> (TestSuite \<times> string) list) \<times> 'w"
  DeltaTracker_WillRun :: "TestSuite \<Rightarrow> 'w \<Rightarrow> 'w"
  WasInterrupted :: "'w \<Rightarrow> bool \<times> 'w"
  select :: "'w \<Rightarrow> select_case \<times> 'w"
  CompileSuite :: "TestSuite \<Rightarrow> 'w \<Rightarrow> TestSuite \<times> 'w"
  RunCompiledSuite :: "TestSuite \<Rightarrow> 64 word \<Rightarrow> bool \<Rightarrow> 'w \<Rightarrow> TestSuite \<times> 'w"
  Cleanup :: "TestSuite \<Rightarrow> 'w \<Rightarrow> 'w"
  Now_Unix :: "'w \<Rightarrow> 64 word \<times> 'w"
  FinalizeProfilesAndReportsForSuites :: "TestSuite list \<Rightarrow> 'w \<Rightarrow> (string list \<times> string option) \<times> 'w"

text \<open>
  The state: the fields of \<^verbatim>\<open>SpecWatcher\<close> that the command reads or writes
  (\<^verbatim>\<open>suiteConfig.RandomSeed\<close>, \<^verbatim>\<open>reporterConfig.Verbose\<close>, \<^verbatim>\<open>reporterConfig.Succinct\<close>,
  \<^verbatim>\<open>cliConfig.Depth\<close>, \<^verbatim>\<open>cliConfig.WatchRegExp\<close>, \<^verbatim>\<open>flags.WasSet\<close>), the world of the
  collaborators, and the trace so far.
\<close>

record 'w state =
  RandomSeed :: "64 word"
  Verbose :: bool
  Succinct :: bool
  Depth :: int
  WatchRegExp :: string
  WasSet :: "string \<Rightarrow> bool"
  world :: 'w
  trace :: "event list"

text \<open>
  How a stretch of \<^verbatim>\<open>WatchSpecs\<close> ends: the loop goes on (\<open>Continue\<close>), the function
  returns (\<open>Return\<close>), \<^verbatim>\<open>command.AbortWith\<close> or \<^verbatim>\<open>command.AbortIfError\<close> aborts the
  command with a message (\<open>Abort\<close>), or \<^verbatim>\<open>regexp.MustCompile\<close> panics (\<open>Panic\<close>).
\<close>

datatype 'w outcome =
    Continue "'w state"
  | Return "'w state"
  | Abort string "'w state"
  | Panic "'w state"

text \<open>How the loop over the run list ends: by the interrupt check, or after the last suite.\<close>

datatype 'w run_result =
    Interrupted "'w state"
  | Completed bool "'w state"

section \<open>The watch command: operations\<close>

definition emit :: "event \<Rightarrow> 'w state \<Rightarrow> 'w state" where
  "emit e st = st\<lparr>trace := trace st @ [e]\<rparr>"

definition do_FindSuites :: "'w collaborators \<Rightarrow> 'w state \<Rightarrow> TestSuite list \<times> 'w state" where
  "do_FindSuites c st =
     (let (suites, w) = FindSuites c (world st)
      in (suites, emit Call_FindSuites (st\<lparr>world := w\<rparr>)))"

definition do_Delta ::
  "'w collaborators \<Rightarrow> TestSuite list \<Rightarrow> 'w state \<Rightarrow> (Delta \<times> (TestSuite \<times> string) list) \<times> 'w state" where
  "do_Delta c suites st =
     (let (r, w) = DeltaTracker_Delta c suites (world st)
      in (r, emit (Call_Delta suites) (st\<lparr>world := w\<rparr>)))"

definition do_WillRun :: "'w collaborators \<Rightarrow> TestSuite \<Rightarrow> 'w state \<Rightarrow> 'w state" where
  "do_WillRun c suite st =
     emit (Call_WillRun suite) (st\<lparr>world := DeltaTracker_WillRun c suite (world st)\<rparr>)"

definition do_WasInterrupted :: "'w collaborators \<Rightarrow> 'w state \<Rightarrow> bool \<times> 'w state" where
  "do_WasInterrupted c st =
     (let (b, w) = WasInterrupted c (world st)
      in (b, emit (Call_WasInterrupted b) (st\<lparr>world := w\<rparr>)))"

definition do_select :: "'w collaborators \<Rightarrow> 'w state \<Rightarrow> select_case \<times> 'w state" where
  "do_select c st =
     (let (ch, w) = select c (world st)
      in (ch, emit (Call_select ch) (st\<lparr>world := w\<rparr>)))"

definition do_CompileSuite :: "'w collaborators \<Rightarrow> TestSuite \<Rightarrow> 'w state \<Rightarrow> TestSuite \<times> 'w state" where
  "do_CompileSuite c suite st =
     (let (r, w) = CompileSuite c suite (world st)
      in (r, emit (Call_CompileSuite suite) (st\<lparr>world := w\<rparr>)))"

definition do_RunCompiledSuite :: "'w collaborators \<Rightarrow> TestSuite \<Rightarrow> 'w state \<Rightarrow> TestSuite \<times> 'w state" where
  "do_RunCompiledSuite c suite st =
     (let (r, w) = RunCompiledSuite c suite (RandomSeed st) (Succinct st) (world st)
      in (r, emit (Call_RunCompiledSuite suite (RandomSeed st) (Succinct st)) (st\<lparr>world := w\<rparr>)))"

definition do_Cleanup :: "'w collaborators \<Rightarrow> TestSuite \<Rightarrow> 'w state \<Rightarrow> 'w state" where
  "do_Cleanup c suite st =
     emit (Call_Cleanup suite) (st\<lparr>world := Cleanup c suite (world st)\<rparr>)"

definition do_Now_Unix :: "'w collaborators \<Rightarrow> 'w state \<Rightarrow> 64 word \<times> 'w state" where
  "do_Now_Unix c st =
     (let (t, w) = Now_Unix c (world st)
      in (t, emit Call_Now (st\<lparr>world := w\<rparr>)))"

definition do_Finalize ::
  "'w collaborators \<Rightarrow> TestSuite list \<Rightarrow> 'w state \<Rightarrow> (string list \<times> string option) \<times> 'w state" where
  "do_Finalize c suites st =
     (let (r, w) = FinalizeProfilesAndReportsForSuites c suites (world st)
      in (r, emit (Call_FinalizeProfilesAndReports suites) (st\<lparr>world := w\<rparr>)))"

text \<open>\<^verbatim>\<open>updateSeed\<close> (lines 186--190).\<close>

definition updateSeed :: "'w collaborators \<Rightarrow> 'w state \<Rightarrow> 'w state" where
  "updateSeed c st =
     (if \<not> WasSet st ''seed''
      then (let (t, st1) = do_Now_Unix c st in st1\<lparr>RandomSeed := t\<rparr>)
      else st)"

text \<open>\<^verbatim>\<open>computeSuccinctMode\<close> (lines 167--184).\<close>

definition computeSuccinctMode :: "int \<Rightarrow> 'w state \<Rightarrow> 'w state" where
  "computeSuccinctMode numSuites st =
     (if Verbose st then st\<lparr>Succinct := False\<rparr>
      else if WasSet st ''succinct'' then st
      else (let st1 = (if numSuites = 1 then st\<lparr>Succinct := False\<rparr> else st)
            in if numSuites > 1 then st1\<lparr>Succinct := True\<rparr> else st1))"

text \<open>\<^verbatim>\<open>compileAndRun\<close> (lines 153--165).\<close>

definition compileAndRun :: "'w collaborators \<Rightarrow> TestSuite \<Rightarrow> 'w state \<Rightarrow> bool \<times> 'w state" where
  "compileAndRun c suite st =
     (let (suite1, st1) = do_CompileSuite c suite st
      in case CompilationError suite1 of
           Some err \<Rightarrow> (False, emit (Print (ErrorText err)) st1)
         | None \<Rightarrow>
             (let (interrupted, st2) = do_WasInterrupted c st1
              in if interrupted then (False, st2)
                 else (let (suite2, st3) = do_RunCompiledSuite c suite1 st2;
                           st4 = do_Cleanup c suite2 st3
                       in (Passed suite2, st4))))"

text \<open>The loop over the run list (lines 129--135), with the variable \<^verbatim>\<open>passed\<close>.\<close>

fun runSuites :: "'w collaborators \<Rightarrow> TestSuite list \<Rightarrow> bool \<Rightarrow> 'w state \<Rightarrow> 'w run_result" where
  "runSuites c [] passed st = Completed passed st"
| "runSuites c (suite # rest) passed st =
     (case do_WasInterrupted c st of
        (True, st1) \<Rightarrow> Interrupted st1
      | (False, st1) \<Rightarrow>
          (case compileAndRun c suite (do_WillRun c suite st1) of
             (ok, st3) \<Rightarrow> runSuites c rest (ok \<and> passed) st3))"

text \<open>
  The two loops that append to the run list and print one line for each suite
  (lines 102--105 and 115--118).
\<close>

fun appendSuites ::
  "tracked_suite list \<Rightarrow> TestSuite list \<Rightarrow> 'w state \<Rightarrow> TestSuite list \<times> 'w state" where
  "appendSuites [] suites st = (suites, st)"
| "appendSuites (x # xs) suites st =
     appendSuites xs (suites @ [Suite x]) (emit (Print (SuiteLine (Description x))) st)"

text \<open>The loop that prints the modified packages (lines 111--113).\<close>

fun printPackages :: "string list \<Rightarrow> 'w state \<Rightarrow> 'w state" where
  "printPackages [] st = st"
| "printPackages (pkg # pkgs) st = printPackages pkgs (emit (Print (PackageLine pkg)) st)"

text \<open>Building the run list of a tick from the delta (lines 98--120).\<close>

definition affectedSuites :: "Delta \<Rightarrow> 'w state \<Rightarrow> TestSuite list \<times> 'w state" where
  "affectedSuites delta st =
     (let (suites1, st1) =
            (if length (NewSuites delta) > 0
             then appendSuites (NewSuites delta) []
                    (emit (Print (DetectedNew (length (NewSuites delta)))) st)
             else ([], st));
          modifiedSuites = ModifiedSuites delta
      in if length modifiedSuites > 0
         then (let st2 = printPackages (ModifiedPackages delta) (emit (Print DetectedChangesIn) st1);
                   st3 = emit (Print (WillRunSuites (length modifiedSuites))) st2;
                   (suites2, st4) = appendSuites modifiedSuites suites1 st3
               in (suites2, emit (Print BlankLine) st4))
         else (suites1, st1))"

text \<open>The loop that prints the messages (lines 144--146).\<close>

fun printMessages :: "string list \<Rightarrow> 'w state \<Rightarrow> 'w state" where
  "printMessages [] st = st"
| "printMessages (m # ms) st = printMessages ms (emit (Print (Message m)) st)"

text \<open>
  The body of \<^verbatim>\<open>case <-ticker.C\<close> (lines 94--146). The \<^verbatim>\<open>break\<close> of line 123 leaves
  the \<^verbatim>\<open>select\<close>, not the \<^verbatim>\<open>for\<close>: the loop goes on.
\<close>

definition tick :: "'w collaborators \<Rightarrow> 'w state \<Rightarrow> 'w outcome" where
  "tick c st =
     (let (found, st1) = do_FindSuites c st;
          ((delta, errors), st2) = do_Delta c found st1;
          (suites, st3) = affectedSuites delta st2
      in if length suites = 0 then Continue st3
         else (case runSuites c suites True
                      (computeSuccinctMode (int (length suites)) (updateSeed c st3)) of
                 Interrupted st4 \<Rightarrow> Return st4
               | Completed passed st4 \<Rightarrow>
                   (let st5 = emit (Print (Done passed)) st4;
                        ((messages, err), st6) = do_Finalize c suites st5
                    in case err of
                         Some e \<Rightarrow> Abort ''could not finalize profiles:'' st6
                       | None \<Rightarrow> Continue (printMessages messages st6))))"

text \<open>One round of the \<^verbatim>\<open>for\<close> loop: the \<^verbatim>\<open>select\<close> (lines 92--149).\<close>

definition iteration :: "'w collaborators \<Rightarrow> 'w state \<Rightarrow> 'w outcome" where
  "iteration c st =
     (case do_select c st of
        (Ticker_C, st1) \<Rightarrow> tick c st1
      | (InterruptChannel, st1) \<Rightarrow> Return st1)"

text \<open>The loops that print the watched suites and the errors (lines 76--82).\<close>

fun printSuites :: "tracked_suite list \<Rightarrow> 'w state \<Rightarrow> 'w state" where
  "printSuites [] st = st"
| "printSuites (x # xs) st = printSuites xs (emit (Print (SuiteLine (Description x))) st)"

fun printErrors :: "(TestSuite \<times> string) list \<Rightarrow> 'w state \<Rightarrow> 'w state" where
  "printErrors [] st = st"
| "printErrors ((suite, err) # es) st =
     printErrors es (emit (Print (FailedToWatch (PackageName suite) err)) st)"

text \<open>
  \<^verbatim>\<open>WatchSpecs\<close> up to the \<^verbatim>\<open>for\<close> loop (lines 65--89): the first discovery, the first
  delta, and the immediate run.
\<close>

definition startup :: "'w collaborators \<Rightarrow> 'w state \<Rightarrow> 'w outcome" where
  "startup c st =
     (let (suites, st1) = do_FindSuites c st
      in if length suites = 0 then Abort ''Found no test suites'' st1
         else (let st2 = emit (Print (Identified (length suites) (Depth st1))) st1
               in if \<not> regexp_compiles c (WatchRegExp st2) then Panic st2
                  else (let st3 = emit (Call_NewDeltaTracker (Depth st2))
                                    (st2\<lparr>world := NewDeltaTracker c (Depth st2) (WatchRegExp st2) (world st2)\<rparr>);
                            ((delta, errors), st4) = do_Delta c suites st3;
                            st5 = emit (Print (Watching (length (NewSuites delta)))) st4;
                            st6 = printSuites (NewSuites delta) st5;
                            st7 = printErrors errors st6;
                            st8 = (if length suites = 1
                                   then snd (compileAndRun c (suites ! 0) (updateSeed c st7))
                                   else st7)
                        in Continue (emit Call_NewTicker st8))))"

text \<open>
  The \<^verbatim>\<open>for\<close> loop has no exit of its own. \<open>watch_loop n\<close> runs at most \<open>n\<close> rounds of
  it; \<open>Continue\<close> is the state of a loop that is still running after them.
\<close>

fun watch_loop :: "nat \<Rightarrow> 'w collaborators \<Rightarrow> 'w state \<Rightarrow> 'w outcome" where
  "watch_loop 0 c st = Continue st"
| "watch_loop (Suc n) c st =
     (case iteration c st of
        Continue st1 \<Rightarrow> watch_loop n c st1
      | Return st1 \<Rightarrow> Return st1
      | Abort m st1 \<Rightarrow> Abort m st1
      | Panic st1 \<Rightarrow> Panic st1)"

definition WatchSpecs :: "nat \<Rightarrow> 'w collaborators \<Rightarrow> 'w state \<Rightarrow> 'w outcome" where
  "WatchSpecs n c st =
     (case startup c st of
        Continue st1 \<Rightarrow> watch_loop n c st1
      | Return st1 \<Rightarrow> Return st1
      | Abort m st1 \<Rightarrow> Abort m st1
      | Panic st1 \<Rightarrow> Panic st1)"

section \<open>Observing a run\<close>

text \<open>The state in which a stretch of the command ends.\<close>

definition state_of :: "'w run_result \<Rightarrow> 'w state" where
  "state_of r = (case r of Interrupted st \<Rightarrow> st | Completed p st \<Rightarrow> st)"

definition final :: "'w outcome \<Rightarrow> 'w state" where
  "final r = (case r of Continue st \<Rightarrow> st | Return st \<Rightarrow> st | Abort m st \<Rightarrow> st | Panic st \<Rightarrow> st)"

text \<open>
  Whether the loop over the run list reached its end, and the value of \<^verbatim>\<open>passed\<close> it
  ended with (line 137 reads it to choose the colour of the closing line).
\<close>

definition completed :: "'w run_result \<Rightarrow> bool" where
  "completed r = (case r of Completed p st \<Rightarrow> True | Interrupted st \<Rightarrow> False)"

definition verdict :: "'w run_result \<Rightarrow> bool option" where
  "verdict r = (case r of Completed p st \<Rightarrow> Some p | Interrupted st \<Rightarrow> None)"

text \<open>The events that the loop over the run list can add to the trace.\<close>

definition run_event :: "event \<Rightarrow> bool" where
  "run_event e =
     (case e of
        Call_WasInterrupted b \<Rightarrow> True
      | Call_WillRun s \<Rightarrow> True
      | Call_CompileSuite s \<Rightarrow> True
      | Call_RunCompiledSuite s seed succinct \<Rightarrow> True
      | Call_Cleanup s \<Rightarrow> True
      | Print p \<Rightarrow> (case p of ErrorText t \<Rightarrow> True | _ \<Rightarrow> False)
      | _ \<Rightarrow> False)"

text \<open>
  Views of a trace. \<open>is_suite_event\<close> keeps what is done to a suite: the tracker's
  mark, the compilation, the run and the clean-up. \<open>is_mark_or_compile\<close> keeps the first
  two. \<open>run_configs\<close> lists the seed and the succinct flag of every run.
  \<open>is_failure_line\<close> keeps the printed lines \<^verbatim>\<open>Failed to watch ...\<close>.
\<close>

definition is_suite_event :: "event \<Rightarrow> bool" where
  "is_suite_event e =
     (case e of
        Call_WillRun s \<Rightarrow> True
      | Call_CompileSuite s \<Rightarrow> True
      | Call_RunCompiledSuite s seed succinct \<Rightarrow> True
      | Call_Cleanup s \<Rightarrow> True
      | _ \<Rightarrow> False)"

definition is_mark_or_compile :: "event \<Rightarrow> bool" where
  "is_mark_or_compile e =
     (case e of Call_WillRun s \<Rightarrow> True | Call_CompileSuite s \<Rightarrow> True | _ \<Rightarrow> False)"

definition run_configs :: "event list \<Rightarrow> (64 word \<times> bool) list" where
  "run_configs ev =
     concat (map (\<lambda>e. case e of Call_RunCompiledSuite s seed succinct \<Rightarrow> [(seed, succinct)] | _ \<Rightarrow> []) ev)"

definition is_failure_line :: "event \<Rightarrow> bool" where
  "is_failure_line e =
     (case e of Print p \<Rightarrow> (case p of FailedToWatch n t \<Rightarrow> True | _ \<Rightarrow> False) | _ \<Rightarrow> False)"

text \<open>
  What is done to one suite after the tracker's mark and the compilation: nothing more
  (the compilation failed, or the interrupt was seen after it), or one run and its
  clean-up.
\<close>

definition run_block :: "event list \<Rightarrow> bool" where
  "run_block b =
     (case b of
        [] \<Rightarrow> True
      | [e1, e2] \<Rightarrow>
          (case e1 of Call_RunCompiledSuite s seed succinct \<Rightarrow> True | _ \<Rightarrow> False) \<and>
          (case e2 of Call_Cleanup s \<Rightarrow> True | _ \<Rightarrow> False)
      | _ \<Rightarrow> False)"

definition suite_block :: "TestSuite \<times> event list \<Rightarrow> event list" where
  "suite_block sb = Call_WillRun (fst sb) # Call_CompileSuite (fst sb) # snd sb"

text \<open>
  The order in which a tracker would be told of a suite only once that suite has been
  through its compile-and-run, in its weakest form: when \<^verbatim>\<open>WillRun\<close> is called for a
  suite, \<^verbatim>\<open>CompileSuite\<close> has been called for that suite before. \<open>started\<close> collects the
  suites compiled so far.
\<close>

fun marked_after_compile :: "TestSuite list \<Rightarrow> event list \<Rightarrow> bool" where
  "marked_after_compile started [] = True"
| "marked_after_compile started (e # ev) =
     (case e of
        Call_CompileSuite s \<Rightarrow> marked_after_compile (s # started) ev
      | Call_WillRun s \<Rightarrow> s \<in> set started \<and> marked_after_compile started ev
      | _ \<Rightarrow> marked_after_compile started ev)"

text \<open>
  Names for the parts of a tick: the run list that lines 98--120 build from a delta, the
  delta that the tracker returns in the tick that starts in \<open>st\<close>, and the state in which
  the loop over the run list starts (line 129).
\<close>

definition runList :: "Delta \<Rightarrow> TestSuite list" where
  "runList delta = map Suite (NewSuites delta) @ map Suite (ModifiedSuites delta)"

definition tick_delta :: "'w collaborators \<Rightarrow> 'w state \<Rightarrow> Delta" where
  "tick_delta c st = fst (fst (do_Delta c (fst (do_FindSuites c st)) (snd (do_FindSuites c st))))"

definition tick_start :: "'w collaborators \<Rightarrow> 'w state \<Rightarrow> 'w state" where
  "tick_start c st =
     computeSuccinctMode (int (length (runList (tick_delta c st))))
       (updateSeed c
          (snd (affectedSuites (tick_delta c st)
                  (snd (do_Delta c (fst (do_FindSuites c st)) (snd (do_FindSuites c st)))))))"

text \<open>The same collaborators, with a tracker that reports no error.\<close>

definition ignoring_errors :: "'w collaborators \<Rightarrow> 'w collaborators" where
  "ignoring_errors c =
     c\<lparr>DeltaTracker_Delta :=
         (\<lambda>suites w. ((fst (fst (DeltaTracker_Delta c suites w)), []),
                       snd (DeltaTracker_Delta c suites w)))\<rparr>"

section \<open>The delta tracker, from the specification\<close>







section \<open>Scripted collaborators\<close>

text \<open>
  Concrete suites, deltas and collaborators on which the operations are evaluated. The
  world of \<open>scripted\<close> counts the calls of \<^verbatim>\<open>WasInterrupted\<close>; the interrupt is set from
  call number \<open>k\<close> on. Discovery always returns \<open>found\<close>, the tracker always returns
  \<open>d\<close> and \<open>errs\<close>, the suite of path \<^verbatim>\<open>pkg/broken\<close> does not compile, every run passes,
  the clock shows 42.
\<close>

definition suiteA :: TestSuite where
  "suiteA = \<lparr>Path = ''pkg/a'', PackageName = ''a'', CompilationError = None, Passed = False\<rparr>"

definition suiteB :: TestSuite where
  "suiteB = \<lparr>Path = ''pkg/b'', PackageName = ''b'', CompilationError = None, Passed = False\<rparr>"

definition broken :: TestSuite where
  "broken = \<lparr>Path = ''pkg/broken'', PackageName = ''broken'', CompilationError = None, Passed = False\<rparr>"

definition tracked :: "TestSuite \<Rightarrow> tracked_suite" where
  "tracked s = \<lparr>Suite = s, Description = Path s\<rparr>"

definition no_delta :: Delta where
  "no_delta = \<lparr>NewSuites = [], ModifiedPackages = [], ModifiedSuites = []\<rparr>"

definition one_new :: Delta where
  "one_new = \<lparr>NewSuites = [tracked suiteA], ModifiedPackages = [], ModifiedSuites = []\<rparr>"

definition two_new :: Delta where
  "two_new = \<lparr>NewSuites = [tracked suiteA, tracked suiteB], ModifiedPackages = [], ModifiedSuites = []\<rparr>"

definition unwatchable :: "(TestSuite \<times> string) list" where
  "unwatchable = [(suiteB, ''no such package'')]"

definition scripted ::
  "TestSuite list \<Rightarrow> Delta \<Rightarrow> (TestSuite \<times> string) list \<Rightarrow> nat \<Rightarrow> nat collaborators" where
  "scripted found d errs k =
     \<lparr>FindSuites = (\<lambda>w. (found, w)),
      regexp_compiles = (\<lambda>r. True),
      NewDeltaTracker = (\<lambda>depth r w. w),
      DeltaTracker_Delta = (\<lambda>suites w. ((d, errs), w)),
      DeltaTracker_WillRun = (\<lambda>s w. w),
      WasInterrupted = (\<lambda>w. (k \<le> w, Suc w)),
      select = (\<lambda>w. (Ticker_C, w)),
      CompileSuite = (\<lambda>s w. (if Path s = ''pkg/broken''
                               then s\<lparr>CompilationError := Some ''build failed''\<rparr> else s, w)),
      RunCompiledSuite = (\<lambda>s seed succinct w. (s\<lparr>Passed := True\<rparr>, w)),
      Cleanup = (\<lambda>s w. w),
      Now_Unix = (\<lambda>w. (42, w)),
      FinalizeProfilesAndReportsForSuites = (\<lambda>suites w. (([], None), w))\<rparr>"

definition idle :: "nat state" where
  "idle = \<lparr>RandomSeed = 1, Verbose = False, Succinct = False, Depth = 1, WatchRegExp = ''go'',
           WasSet = (\<lambda>f. False), world = 0, trace = []\<rparr>"



section \<open>Lemmas\<close>

subsection \<open>Calls of the collaborators and the configuration\<close>

text \<open>
  A call changes the world and the trace only; the loop over the run list leaves the seed,
  the flags and the options as they are.
\<close>

lemmas call_defs = do_FindSuites_def do_Delta_def do_WillRun_def do_WasInterrupted_def
  do_select_def do_CompileSuite_def do_RunCompiledSuite_def do_Cleanup_def do_Now_Unix_def do_Finalize_def

lemma emit_fields [simp]:
  "trace (emit e st) = trace st @ [e]"
  "world (emit e st) = world st"
  "RandomSeed (emit e st) = RandomSeed st"
  "Succinct (emit e st) = Succinct st"
  "Verbose (emit e st) = Verbose st"
  "WasSet (emit e st) = WasSet st"
  "Depth (emit e st) = Depth st"
  "WatchRegExp (emit e st) = WatchRegExp st"
  by (simp_all add: emit_def)

lemma runSuites_Cons:
  "runSuites c (s # rest) p st =
     (if fst (do_WasInterrupted c st) then Interrupted (snd (do_WasInterrupted c st))
      else runSuites c rest
             (fst (compileAndRun c s (do_WillRun c s (snd (do_WasInterrupted c st)))) \<and> p)
             (snd (compileAndRun c s (do_WillRun c s (snd (do_WasInterrupted c st))))))"
  by (simp split: prod.splits bool.splits)

declare runSuites.simps(2) [simp del]

lemma state_of_simps [simp]:
  "state_of (Interrupted st) = st" "state_of (Completed p st) = st"
  by (simp_all add: state_of_def)

lemma final_simps [simp]:
  "final (Continue st) = st" "final (Return st) = st" "final (Abort m st) = st" "final (Panic st) = st"
  by (simp_all add: final_def)

lemma compileAndRun_config:
  "RandomSeed (snd (compileAndRun c s st)) = RandomSeed st"
  "Succinct (snd (compileAndRun c s st)) = Succinct st"
  "Verbose (snd (compileAndRun c s st)) = Verbose st"
  "WasSet (snd (compileAndRun c s st)) = WasSet st"
  by (simp_all add: compileAndRun_def call_defs case_prod_beta Let_def split: option.splits)

lemma do_WasInterrupted_config:
  "RandomSeed (snd (do_WasInterrupted c st)) = RandomSeed st"
  "Succinct (snd (do_WasInterrupted c st)) = Succinct st"
  "Verbose (snd (do_WasInterrupted c st)) = Verbose st"
  "WasSet (snd (do_WasInterrupted c st)) = WasSet st"
  by (simp_all add: call_defs case_prod_beta)

lemma do_WillRun_config:
  "RandomSeed (do_WillRun c s st) = RandomSeed st"
  "Succinct (do_WillRun c s st) = Succinct st"
  "Verbose (do_WillRun c s st) = Verbose st"
  "WasSet (do_WillRun c s st) = WasSet st"
  by (simp_all add: call_defs)

lemmas step_config = compileAndRun_config do_WasInterrupted_config do_WillRun_config

lemma runSuites_config:
  "RandomSeed (state_of (runSuites c suites p st)) = RandomSeed st"
  "Succinct (state_of (runSuites c suites p st)) = Succinct st"
  "Verbose (state_of (runSuites c suites p st)) = Verbose st"
  "WasSet (state_of (runSuites c suites p st)) = WasSet st"
proof (induction suites arbitrary: p st)
  case Nil
  {
    case 1 show ?case by simp
  next
    case 2 show ?case by simp
  next
    case 3 show ?case by simp
  next
    case 4 show ?case by simp
  }
next
  case (Cons s rest)
  {
    case 1 show ?case by (simp add: runSuites_Cons Cons.IH(1) step_config)
  next
    case 2 show ?case by (simp add: runSuites_Cons Cons.IH(2) step_config)
  next
    case 3 show ?case by (simp add: runSuites_Cons Cons.IH(3) step_config)
  next
    case 4 show ?case by (simp add: runSuites_Cons Cons.IH(4) step_config)
  }
qed

subsection \<open>The trace of the loop over the run list\<close>

lemma compileAndRun_filter:
  assumes "\<And>e. run_event e \<Longrightarrow> \<not> P e"
  shows "filter P (trace (snd (compileAndRun c s st))) = filter P (trace st)"
  using assms [unfolded run_event_def]
  by (simp add: compileAndRun_def call_defs case_prod_beta Let_def run_event_def split: option.splits)

lemma completed_simps [simp]: "completed (Completed p st)" "\<not> completed (Interrupted st)"
  by (simp_all add: completed_def)



lemma runSuites_append:
  "runSuites c (xs @ ys) p st =
     (case runSuites c xs p st of
        Interrupted st1 \<Rightarrow> Interrupted st1
      | Completed p1 st1 \<Rightarrow> runSuites c ys p1 st1)"
  by (induction xs arbitrary: p st) (simp_all add: runSuites_Cons)

lemma runSuites_filter:
  assumes "\<And>e. run_event e \<Longrightarrow> \<not> P e"
  shows "filter P (trace (state_of (runSuites c suites p st))) = filter P (trace st)"
proof (induction suites arbitrary: p st)
  case Nil
  show ?case by simp
next
  case (Cons s rest)
  have a: "\<And>b. \<not> P (Call_WasInterrupted b)" "\<not> P (Call_WillRun s)"
    using assms by (simp_all add: run_event_def)
  show ?case
    using a by (simp add: runSuites_Cons Cons.IH compileAndRun_filter[OF assms])
      (simp add: call_defs case_prod_beta)
qed

lemma compileAndRun_run_configs:
  "\<exists>k. run_configs (trace (snd (compileAndRun c s st))) =
        run_configs (trace st) @ replicate k (RandomSeed st, Succinct st)"
proof (cases "CompilationError (fst (do_CompileSuite c s st)) = None \<and>
              \<not> fst (do_WasInterrupted c (snd (do_CompileSuite c s st)))")
  case True
  then show ?thesis
    by (intro exI[of _ 1])
       (auto simp add: compileAndRun_def call_defs case_prod_beta Let_def run_configs_def split: option.splits)
next
  case False
  then show ?thesis
    by (intro exI[of _ 0])
       (auto simp add: compileAndRun_def call_defs case_prod_beta Let_def run_configs_def split: option.splits)
qed

lemma runSuites_run_configs:
  "\<exists>k. run_configs (trace (state_of (runSuites c suites p st))) =
        run_configs (trace st) @ replicate k (RandomSeed st, Succinct st)"
proof (induction suites arbitrary: p st)
  case Nil
  show ?case by simp
next
  case (Cons s rest)
  show ?case
  proof (cases "fst (do_WasInterrupted c st)")
    case True
    then show ?thesis
      by (intro exI[of _ 0]) (simp add: runSuites_Cons, simp add: call_defs case_prod_beta run_configs_def)
  next
    case False
    let ?st1 = "do_WillRun c s (snd (do_WasInterrupted c st))"
    let ?st3 = "snd (compileAndRun c s ?st1)"
    let ?ok = "fst (compileAndRun c s ?st1)"
    have cfg: "RandomSeed ?st1 = RandomSeed st" "Succinct ?st1 = Succinct st"
      "RandomSeed ?st3 = RandomSeed st" "Succinct ?st3 = Succinct st"
      by (simp_all add: step_config)
    have t1: "run_configs (trace ?st1) = run_configs (trace st)"
      by (simp add: call_defs case_prod_beta run_configs_def)
    obtain j where j: "run_configs (trace ?st3) = run_configs (trace ?st1) @ replicate j (RandomSeed ?st1, Succinct ?st1)"
      using compileAndRun_run_configs[of c s ?st1] by blast
    obtain k where k: "run_configs (trace (state_of (runSuites c rest (?ok \<and> p) ?st3))) =
        run_configs (trace ?st3) @ replicate k (RandomSeed ?st3, Succinct ?st3)"
      using Cons.IH[of "?ok \<and> p" ?st3] by blast
    from False j k t1 cfg show ?thesis
      by (intro exI[of _ "j + k"]) (simp add: runSuites_Cons replicate_add)
  qed
qed

subsection \<open>The printing loops and the run list\<close>

lemma appendSuites_eq:
  "appendSuites xs suites st =
     (suites @ map Suite xs,
      st\<lparr>trace := trace st @ map (\<lambda>x. Print (SuiteLine (Description x))) xs\<rparr>)"
  by (induction xs arbitrary: suites st) (simp_all add: emit_def)

lemma printPackages_eq:
  "printPackages pkgs st = st\<lparr>trace := trace st @ map (\<lambda>p. Print (PackageLine p)) pkgs\<rparr>"
  by (induction pkgs arbitrary: st) (simp_all add: emit_def)

lemma printMessages_eq:
  "printMessages ms st = st\<lparr>trace := trace st @ map (\<lambda>m. Print (Message m)) ms\<rparr>"
  by (induction ms arbitrary: st) (simp_all add: emit_def)

lemma printSuites_eq:
  "printSuites xs st = st\<lparr>trace := trace st @ map (\<lambda>x. Print (SuiteLine (Description x))) xs\<rparr>"
  by (induction xs arbitrary: st) (simp_all add: emit_def)

lemma printErrors_eq:
  "printErrors es st =
     st\<lparr>trace := trace st @ map (\<lambda>(suite, err). Print (FailedToWatch (PackageName suite) err)) es\<rparr>"
  by (induction es st rule: printErrors.induct) (simp_all add: emit_def)

lemma affectedSuites_fst: "fst (affectedSuites delta st) = runList delta"
  by (simp add: affectedSuites_def runList_def appendSuites_eq Let_def)

lemma affectedSuites_fields:
  "world (snd (affectedSuites delta st)) = world st"
  "RandomSeed (snd (affectedSuites delta st)) = RandomSeed st"
  "Succinct (snd (affectedSuites delta st)) = Succinct st"
  "Verbose (snd (affectedSuites delta st)) = Verbose st"
  "WasSet (snd (affectedSuites delta st)) = WasSet st"
  by (simp_all add: affectedSuites_def appendSuites_eq printPackages_eq Let_def emit_def)

lemma affectedSuites_filter:
  assumes "\<And>p. \<not> P (Print (SuiteLine p))" "\<And>p. \<not> P (Print (PackageLine p))"
    "\<And>n. \<not> P (Print (DetectedNew n))" "\<And>n. \<not> P (Print (WillRunSuites n))"
    "\<not> P (Print DetectedChangesIn)" "\<not> P (Print BlankLine)"
  shows "filter P (trace (snd (affectedSuites delta st))) = filter P (trace st)"
  using assms
  by (simp add: affectedSuites_def appendSuites_eq printPackages_eq Let_def emit_def filter_map comp_def)

lemma updateSeed_fields:
  "Succinct (updateSeed c st) = Succinct st"
  "Verbose (updateSeed c st) = Verbose st"
  "WasSet (updateSeed c st) = WasSet st"
  "RandomSeed (updateSeed c st) =
     (if WasSet st ''seed'' then RandomSeed st else fst (Now_Unix c (world st)))"
  "trace (updateSeed c st) = trace st @ (if WasSet st ''seed'' then [] else [Call_Now])"
  by (simp_all add: updateSeed_def call_defs case_prod_beta)

lemma computeSuccinctMode_fields:
  "RandomSeed (computeSuccinctMode n st) = RandomSeed st"
  "Verbose (computeSuccinctMode n st) = Verbose st"
  "WasSet (computeSuccinctMode n st) = WasSet st"
  "world (computeSuccinctMode n st) = world st"
  "trace (computeSuccinctMode n st) = trace st"
  by (simp_all add: computeSuccinctMode_def Let_def)

lemma computeSuccinctMode_Succinct:
  "Succinct (computeSuccinctMode n st) =
     (if Verbose st then False
      else if WasSet st ''succinct'' then Succinct st
      else if n = 1 then False
      else if n > 1 then True
      else Succinct st)"
  by (simp add: computeSuccinctMode_def Let_def)

subsection \<open>A tick\<close>

text \<open>The tick with its parts named by projections, then what a tick adds to the trace.\<close>

lemma tick_unfold:
  "tick c st =
     (let st2 = snd (do_Delta c (fst (do_FindSuites c st)) (snd (do_FindSuites c st)));
          delta = fst (fst (do_Delta c (fst (do_FindSuites c st)) (snd (do_FindSuites c st))));
          st3 = snd (affectedSuites delta st2);
          r = runSuites c (runList delta) True
                (computeSuccinctMode (int (length (runList delta))) (updateSeed c st3))
      in if runList delta = [] then Continue st3
         else (case r of
                 Interrupted st4 \<Rightarrow> Return st4
               | Completed passed st4 \<Rightarrow>
                   (let fin = do_Finalize c (runList delta) (emit (Print (Done passed)) st4)
                    in case snd (fst fin) of
                         Some e \<Rightarrow> Abort ''could not finalize profiles:'' (snd fin)
                       | None \<Rightarrow> Continue (printMessages (fst (fst fin)) (snd fin)))))"
  by (simp add: tick_def case_prod_beta Let_def affectedSuites_fst split: run_result.splits)

lemma tick_filter:
  assumes quiet: "\<And>e. P e \<Longrightarrow> e = Call_Now \<or> is_failure_line e"
  shows "filter P (trace (final (tick c st))) =
         filter P (trace st) @
         (if P Call_Now \<and> runList (tick_delta c st) \<noteq> [] \<and> \<not> WasSet st ''seed''
          then [Call_Now] else [])"
proof -
  have nq: "\<And>e. e \<noteq> Call_Now \<Longrightarrow> \<not> is_failure_line e \<Longrightarrow> \<not> P e"
    using quiet by blast
  have no: "\<not> P Call_FindSuites" "\<And>x. \<not> P (Call_Delta x)" "\<And>x. \<not> P (Call_FinalizeProfilesAndReports x)"
    "\<And>x. \<not> P (Print (Done x))" "\<And>x. \<not> P (Print (Message x))"
    "\<And>p. \<not> P (Print (SuiteLine p))" "\<And>p. \<not> P (Print (PackageLine p))"
    "\<And>n. \<not> P (Print (DetectedNew n))" "\<And>n. \<not> P (Print (WillRunSuites n))"
    "\<not> P (Print DetectedChangesIn)" "\<not> P (Print BlankLine)"
    by (rule nq; simp add: is_failure_line_def)+
  have run: "\<not> P e" if "run_event e" for e
  proof -
    from that have "e \<noteq> Call_Now" "\<not> is_failure_line e"
      by (auto simp: run_event_def is_failure_line_def split: event.splits printed.splits)
    then show ?thesis by (rule nq)
  qed
  let ?st1 = "snd (do_FindSuites c st)"
  let ?st2 = "snd (do_Delta c (fst (do_FindSuites c st)) ?st1)"
  let ?d = "tick_delta c st"
  let ?st3 = "snd (affectedSuites ?d ?st2)"
  let ?r = "runSuites c (runList ?d) True
              (computeSuccinctMode (int (length (runList ?d))) (updateSeed c ?st3))"
  have t2: "filter P (trace ?st2) = filter P (trace st)" "WasSet ?st2 = WasSet st"
    using no by (simp_all add: call_defs case_prod_beta)
  have t3: "filter P (trace ?st3) = filter P (trace st)" "WasSet ?st3 = WasSet st"
    using no t2 by (simp_all add: affectedSuites_filter affectedSuites_fields)
  have tr: "filter P (trace (state_of ?r)) =
            filter P (trace st) @ (if P Call_Now \<and> \<not> WasSet st ''seed'' then [Call_Now] else [])"
    using t3 by (simp add: runSuites_filter[OF run] computeSuccinctMode_fields updateSeed_fields)
  show ?thesis
  proof (cases "runList ?d = []")
    case True
    then show ?thesis
      using t3 by (simp add: tick_unfold tick_delta_def Let_def)
  next
    case False
    show ?thesis
    proof (cases ?r)
      case (Interrupted st4)
      with False tr show ?thesis
        by (simp add: tick_unfold tick_delta_def Let_def)
    next
      case (Completed passed st4)
      with False tr no show ?thesis
        by (simp add: tick_unfold tick_delta_def Let_def printMessages_eq call_defs case_prod_beta
            filter_map comp_def split: option.splits)
    qed
  qed
qed

lemma tick_config:
  "RandomSeed (final (tick c st)) =
     (if runList (tick_delta c st) = [] \<or> WasSet st ''seed'' then RandomSeed st
      else fst (Now_Unix c (world (snd (do_Delta c (fst (do_FindSuites c st)) (snd (do_FindSuites c st)))))))"
  "Succinct (final (tick c st)) =
     (if runList (tick_delta c st) = [] then Succinct st
      else Succinct (computeSuccinctMode (int (length (runList (tick_delta c st)))) st))"
proof -
  let ?st1 = "snd (do_FindSuites c st)"
  let ?st2 = "snd (do_Delta c (fst (do_FindSuites c st)) ?st1)"
  let ?d = "tick_delta c st"
  let ?st3 = "snd (affectedSuites ?d ?st2)"
  let ?st0 = "computeSuccinctMode (int (length (runList ?d))) (updateSeed c ?st3)"
  let ?r = "runSuites c (runList ?d) True ?st0"
  have t2: "RandomSeed ?st2 = RandomSeed st" "WasSet ?st2 = WasSet st" "Succinct ?st2 = Succinct st"
    "Verbose ?st2 = Verbose st"
    by (simp_all add: call_defs case_prod_beta)
  have t3: "RandomSeed ?st3 = RandomSeed st" "WasSet ?st3 = WasSet st" "Succinct ?st3 = Succinct st"
    "Verbose ?st3 = Verbose st" "world ?st3 = world ?st2"
    using t2 by (simp_all add: affectedSuites_fields)
  have r: "RandomSeed (state_of ?r) =
             (if WasSet st ''seed'' then RandomSeed st else fst (Now_Unix c (world ?st2)))"
    "Succinct (state_of ?r) = Succinct (computeSuccinctMode (int (length (runList ?d))) st)"
    using t3
    by (simp_all add: runSuites_config computeSuccinctMode_fields updateSeed_fields
        computeSuccinctMode_Succinct)
  show "RandomSeed (final (tick c st)) =
     (if runList (tick_delta c st) = [] \<or> WasSet st ''seed'' then RandomSeed st
      else fst (Now_Unix c (world ?st2)))"
  proof (cases ?r)
    case (Interrupted st4)
    with r(1) t3 show ?thesis
      by (simp add: tick_unfold tick_delta_def Let_def)
  next
    case (Completed passed st4)
    with r(1) t3 show ?thesis
      by (simp add: tick_unfold tick_delta_def Let_def printMessages_eq call_defs case_prod_beta
          split: option.splits)
  qed
  show "Succinct (final (tick c st)) =
     (if runList (tick_delta c st) = [] then Succinct st
      else Succinct (computeSuccinctMode (int (length (runList (tick_delta c st)))) st))"
  proof (cases ?r)
    case (Interrupted st4)
    with r(2) t3 show ?thesis
      by (simp add: tick_unfold tick_delta_def Let_def)
  next
    case (Completed passed st4)
    with r(2) t3 show ?thesis
      by (simp add: tick_unfold tick_delta_def Let_def printMessages_eq call_defs case_prod_beta
          split: option.splits)
  qed
qed

lemma tick_run_configs:
  "\<exists>k. run_configs (trace (final (tick c st))) =
        run_configs (trace st) @
        replicate k (RandomSeed (final (tick c st)), Succinct (final (tick c st)))"
proof -
  let ?st1 = "snd (do_FindSuites c st)"
  let ?st2 = "snd (do_Delta c (fst (do_FindSuites c st)) ?st1)"
  let ?d = "tick_delta c st"
  let ?st3 = "snd (affectedSuites ?d ?st2)"
  let ?st0 = "computeSuccinctMode (int (length (runList ?d))) (updateSeed c ?st3)"
  let ?r = "runSuites c (runList ?d) True ?st0"
  have rc: "\<And>P. run_configs ev = concat (map (\<lambda>e. case e of Call_RunCompiledSuite s seed succinct \<Rightarrow> [(seed, succinct)] | _ \<Rightarrow> []) ev)" for ev
    by (simp add: run_configs_def)
  have t3: "run_configs (trace ?st3) = run_configs (trace st)"
    by (simp add: affectedSuites_def appendSuites_eq printPackages_eq Let_def emit_def
        call_defs case_prod_beta run_configs_def comp_def)
  have t0: "run_configs (trace ?st0) = run_configs (trace st)"
    using t3 by (simp add: computeSuccinctMode_fields updateSeed_fields run_configs_def)
  obtain k where k: "run_configs (trace (state_of ?r)) =
        run_configs (trace ?st0) @ replicate k (RandomSeed ?st0, Succinct ?st0)"
    using runSuites_run_configs[of c "runList ?d" True ?st0] by blast
  have cfg: "RandomSeed (state_of ?r) = RandomSeed ?st0" "Succinct (state_of ?r) = Succinct ?st0"
    by (simp_all add: runSuites_config)
  show ?thesis
  proof (cases "runList ?d = []")
    case True
    with t3 show ?thesis
      by (intro exI[of _ 0]) (simp add: tick_unfold tick_delta_def Let_def)
  next
    case False
    show ?thesis
    proof (cases ?r)
      case (Interrupted st4)
      with False k t0 cfg show ?thesis
        by (intro exI[of _ k]) (simp add: tick_unfold tick_delta_def Let_def)
    next
      case (Completed passed st4)
      with False k t0 cfg show ?thesis
        by (intro exI[of _ k])
          (simp add: tick_unfold tick_delta_def Let_def printMessages_eq call_defs case_prod_beta
            run_configs_def comp_def split: option.splits)
    qed
  qed
qed

lemma verdict_simps [simp]: "verdict (Completed p st) = Some p" "verdict (Interrupted st) = None"
  by (simp_all add: verdict_def)

lemma runSuites_verdict_failed: "verdict (runSuites c suites False st) \<noteq> Some True"
  by (induction suites arbitrary: st) (simp_all add: runSuites_Cons)

lemma tick_eq:
  "tick c st =
     (if runList (tick_delta c st) = []
      then Continue (snd (affectedSuites (tick_delta c st)
                      (snd (do_Delta c (fst (do_FindSuites c st)) (snd (do_FindSuites c st))))))
      else (case runSuites c (runList (tick_delta c st)) True (tick_start c st) of
              Interrupted st4 \<Rightarrow> Return st4
            | Completed passed st4 \<Rightarrow>
                (let fin = do_Finalize c (runList (tick_delta c st)) (emit (Print (Done passed)) st4)
                 in case snd (fst fin) of
                      Some e \<Rightarrow> Abort ''could not finalize profiles:'' (snd fin)
                    | None \<Rightarrow> Continue (printMessages (fst (fst fin)) (snd fin)))))"
  by (simp add: tick_unfold tick_delta_def tick_start_def Let_def split: run_result.splits)

subsection \<open>Evaluating the scripted collaborators\<close>

lemma scripted_fields [simp]:
  "FindSuites (scripted found d errs k) w = (found, w)"
  "regexp_compiles (scripted found d errs k) r = True"
  "NewDeltaTracker (scripted found d errs k) depth r w = w"
  "DeltaTracker_Delta (scripted found d errs k) suites w = ((d, errs), w)"
  "DeltaTracker_WillRun (scripted found d errs k) s w = w"
  "WasInterrupted (scripted found d errs k) w = (k \<le> w, Suc w)"
  "select (scripted found d errs k) w = (Ticker_C, w)"
  "CompileSuite (scripted found d errs k) s w =
     (if Path s = ''pkg/broken'' then s\<lparr>CompilationError := Some ''build failed''\<rparr> else s, w)"
  "RunCompiledSuite (scripted found d errs k) s seed succinct w = (s\<lparr>Passed := True\<rparr>, w)"
  "Cleanup (scripted found d errs k) s w = w"
  "Now_Unix (scripted found d errs k) w = (42, w)"
  "FinalizeProfilesAndReportsForSuites (scripted found d errs k) suites w = (([], None), w)"
  by (simp_all add: scripted_def)

lemmas run_defs = runSuites_Cons compileAndRun_def call_defs emit_def updateSeed_def
  computeSuccinctMode_def affectedSuites_def tick_delta_def tick_start_def runList_def Let_def

lemmas demo_defs = idle_def suiteA_def suiteB_def broken_def tracked_def no_delta_def two_new_def

subsection \<open>Startup\<close>

lemma startup_eq:
  assumes "FindSuites c (world st) = (found, w1)"
    and "found \<noteq> []"
    and "regexp_compiles c (WatchRegExp st)"
    and "DeltaTracker_Delta c found (NewDeltaTracker c (Depth st) (WatchRegExp st) w1) = ((delta, errs), w2)"
  shows "startup c st =
     (let st7 = st\<lparr>world := w2,
                   trace := trace st @
                     [Call_FindSuites, Print (Identified (length found) (Depth st)),
                      Call_NewDeltaTracker (Depth st), Call_Delta found,
                      Print (Watching (length (NewSuites delta)))] @
                     map (\<lambda>x. Print (SuiteLine (Description x))) (NewSuites delta) @
                     map (\<lambda>(suite, err). Print (FailedToWatch (PackageName suite) err)) errs\<rparr>
      in Continue (emit Call_NewTicker
           (if length found = 1 then snd (compileAndRun c (found ! 0) (updateSeed c st7)) else st7)))"
  using assms
  by (simp add: startup_def call_defs emit_def Let_def printSuites_eq printErrors_eq)

lemma is_mark_or_compile_simps [simp]:
  "is_mark_or_compile (Call_WillRun s)" "is_mark_or_compile (Call_CompileSuite s)"
  "\<not> is_mark_or_compile Call_FindSuites" "\<not> is_mark_or_compile (Call_NewDeltaTracker d)"
  "\<not> is_mark_or_compile (Call_Delta ss)" "\<not> is_mark_or_compile (Call_WasInterrupted b)"
  "\<not> is_mark_or_compile (Call_select ch)" "\<not> is_mark_or_compile Call_NewTicker"
  "\<not> is_mark_or_compile (Call_RunCompiledSuite s seed succ)" "\<not> is_mark_or_compile (Call_Cleanup s)"
  "\<not> is_mark_or_compile Call_Now" "\<not> is_mark_or_compile (Call_FinalizeProfilesAndReports ss)"
  "\<not> is_mark_or_compile (Print p)"
  by (simp_all add: is_mark_or_compile_def)

lemma is_failure_line_simps [simp]:
  "is_failure_line (Print (FailedToWatch n t))"
  "\<not> is_failure_line Call_FindSuites" "\<not> is_failure_line (Call_NewDeltaTracker d)"
  "\<not> is_failure_line (Call_Delta ss)" "\<not> is_failure_line (Call_WasInterrupted b)"
  "\<not> is_failure_line (Call_select ch)" "\<not> is_failure_line Call_NewTicker"
  "\<not> is_failure_line (Call_WillRun s)" "\<not> is_failure_line (Call_CompileSuite s)"
  "\<not> is_failure_line (Call_RunCompiledSuite s seed succ)" "\<not> is_failure_line (Call_Cleanup s)"
  "\<not> is_failure_line Call_Now" "\<not> is_failure_line (Call_FinalizeProfilesAndReports ss)"
  "\<not> is_failure_line (Print (Identified a d))" "\<not> is_failure_line (Print (Watching a))"
  "\<not> is_failure_line (Print (SuiteLine t))" "\<not> is_failure_line (Print (DetectedNew a))"
  "\<not> is_failure_line (Print DetectedChangesIn)" "\<not> is_failure_line (Print (PackageLine t))"
  "\<not> is_failure_line (Print (WillRunSuites a))" "\<not> is_failure_line (Print BlankLine)"
  "\<not> is_failure_line (Print (ErrorText t))" "\<not> is_failure_line (Print (Done b))"
  "\<not> is_failure_line (Print (Message t))"
  by (simp_all add: is_failure_line_def)

lemma run_event_not_failure_line: "run_event e \<Longrightarrow> \<not> is_failure_line e"
  by (auto simp: run_event_def is_failure_line_def split: event.splits printed.splits)


subsection \<open>A tracker that reports no error\<close>

lemma ignoring_errors_fields [simp]:
  "FindSuites (ignoring_errors c) = FindSuites c"
  "WasInterrupted (ignoring_errors c) = WasInterrupted c"
  "DeltaTracker_WillRun (ignoring_errors c) = DeltaTracker_WillRun c"
  "CompileSuite (ignoring_errors c) = CompileSuite c"
  "RunCompiledSuite (ignoring_errors c) = RunCompiledSuite c"
  "Cleanup (ignoring_errors c) = Cleanup c"
  "Now_Unix (ignoring_errors c) = Now_Unix c"
  "FinalizeProfilesAndReportsForSuites (ignoring_errors c) = FinalizeProfilesAndReportsForSuites c"
  "DeltaTracker_Delta (ignoring_errors c) suites w =
     ((fst (fst (DeltaTracker_Delta c suites w)), []), snd (DeltaTracker_Delta c suites w))"
  by (simp_all add: ignoring_errors_def)

lemma ignoring_errors_calls:
  "do_FindSuites (ignoring_errors c) = do_FindSuites c"
  "do_WasInterrupted (ignoring_errors c) = do_WasInterrupted c"
  "do_WillRun (ignoring_errors c) = do_WillRun c"
  "do_Finalize (ignoring_errors c) = do_Finalize c"
  "do_CompileSuite (ignoring_errors c) = do_CompileSuite c"
  "do_RunCompiledSuite (ignoring_errors c) = do_RunCompiledSuite c"
  "do_Cleanup (ignoring_errors c) = do_Cleanup c"
  "do_Now_Unix (ignoring_errors c) = do_Now_Unix c"
  by (intro ext, simp add: call_defs)+

lemma ignoring_errors_updateSeed: "updateSeed (ignoring_errors c) st = updateSeed c st"
  unfolding updateSeed_def ignoring_errors_calls by (rule refl)

lemma ignoring_errors_compileAndRun: "compileAndRun (ignoring_errors c) s st = compileAndRun c s st"
  unfolding compileAndRun_def ignoring_errors_calls by (rule refl)

lemmas ignoring_errors_steps = ignoring_errors_updateSeed ignoring_errors_compileAndRun

lemma ignoring_errors_runSuites:
  "runSuites (ignoring_errors c) suites p st = runSuites c suites p st"
  by (induction suites arbitrary: p st) (simp_all add: runSuites_Cons ignoring_errors_calls ignoring_errors_steps)

lemma ignoring_errors_do_Delta:
  "fst (fst (do_Delta (ignoring_errors c) suites st)) = fst (fst (do_Delta c suites st))"
  "snd (do_Delta (ignoring_errors c) suites st) = snd (do_Delta c suites st)"
  by (simp_all add: do_Delta_def case_prod_beta)

lemma ignoring_errors_tick: "tick (ignoring_errors c) st = tick c st"
  unfolding tick_unfold ignoring_errors_calls ignoring_errors_steps ignoring_errors_runSuites
    ignoring_errors_do_Delta by (rule refl)

subsection \<open>The tracker of the specification keeps the order of discovery\<close>




subsection \<open>What is done to each suite\<close>

lemma suite_block_Pair [simp]:
  "suite_block (s, b) = Call_WillRun s # Call_CompileSuite s # b"
  by (simp add: suite_block_def)

lemma compileAndRun_suite_events:
  "\<exists>b. run_block b \<and>
       filter is_suite_event (trace (snd (compileAndRun c s st))) =
       filter is_suite_event (trace st) @ Call_CompileSuite s # b"
proof (cases "CompilationError (fst (do_CompileSuite c s st)) = None \<and>
              \<not> fst (do_WasInterrupted c (snd (do_CompileSuite c s st)))")
  case True
  let ?st2 = "snd (do_WasInterrupted c (snd (do_CompileSuite c s st)))"
  let ?s1 = "fst (do_CompileSuite c s st)"
  let ?b = "[Call_RunCompiledSuite ?s1 (RandomSeed ?st2) (Succinct ?st2),
             Call_Cleanup (fst (do_RunCompiledSuite c ?s1 ?st2))]"
  have "run_block ?b" by (simp add: run_block_def)
  moreover have "filter is_suite_event (trace (snd (compileAndRun c s st))) =
       filter is_suite_event (trace st) @ Call_CompileSuite s # ?b"
    using True
    by (auto simp add: compileAndRun_def call_defs case_prod_beta Let_def is_suite_event_def)
  ultimately show ?thesis by blast
next
  case False
  have "run_block []" by (simp add: run_block_def)
  moreover have "filter is_suite_event (trace (snd (compileAndRun c s st))) =
       filter is_suite_event (trace st) @ Call_CompileSuite s # []"
    using False
    by (auto simp add: compileAndRun_def call_defs case_prod_beta Let_def is_suite_event_def
        split: option.splits)
  ultimately show ?thesis by blast
qed

lemma runSuites_suite_events:
  "\<exists>bs. length bs \<le> length suites \<and> list_all run_block bs \<and>
     filter is_suite_event (trace (state_of (runSuites c suites p st))) =
       filter is_suite_event (trace st) @ concat (map suite_block (zip suites bs)) \<and>
     completed (runSuites c suites p st) = (length bs = length suites)"
proof (induction suites arbitrary: p st)
  case Nil
  show ?case by simp
next
  case (Cons s rest)
  show ?case
  proof (cases "fst (do_WasInterrupted c st)")
    case True
    have "filter is_suite_event (trace (snd (do_WasInterrupted c st))) = filter is_suite_event (trace st)"
      by (simp add: call_defs case_prod_beta is_suite_event_def)
    with True show ?thesis
      by (intro exI [of _ "[]"]) (simp add: runSuites_Cons)
  next
    case False
    let ?st1 = "do_WillRun c s (snd (do_WasInterrupted c st))"
    let ?st3 = "snd (compileAndRun c s ?st1)"
    let ?ok = "fst (compileAndRun c s ?st1)"
    have t1: "filter is_suite_event (trace ?st1) = filter is_suite_event (trace st) @ [Call_WillRun s]"
      by (simp add: call_defs case_prod_beta is_suite_event_def)
    obtain b where b: "run_block b"
      "filter is_suite_event (trace ?st3) = filter is_suite_event (trace ?st1) @ Call_CompileSuite s # b"
      using compileAndRun_suite_events [of c s ?st1] by blast
    obtain bs where bs: "length bs \<le> length rest" "list_all run_block bs"
      "filter is_suite_event (trace (state_of (runSuites c rest (?ok \<and> p) ?st3))) =
         filter is_suite_event (trace ?st3) @ concat (map suite_block (zip rest bs))"
      "completed (runSuites c rest (?ok \<and> p) ?st3) = (length bs = length rest)"
      using Cons.IH [of "?ok \<and> p" ?st3] by blast
    from False b bs t1 show ?thesis
      by (intro exI [of _ "b # bs"]) (simp add: runSuites_Cons)
  qed
qed

section \<open>The claims\<close>

subsection \<open>C1: when the tracker is told that a suite runs\<close>

text \<open>
  C1, as the code has it. In the loop over the run list, \<^verbatim>\<open>WillRun\<close> is called for a suite
  immediately before that suite's compile-and-run, not after it. What is done to the
  suites is a sequence of blocks, one for each suite of a prefix of the run list and in
  the order of the list (\<open>bs\<close> holds the ends of the blocks): the call of \<^verbatim>\<open>WillRun\<close> for
  the suite, the call of \<^verbatim>\<open>CompileSuite\<close> for it, then nothing more or its run and
  clean-up; the block of the next suite starts only after that. The loop reaches its end
  exactly when every suite of the run list has had its block.
\<close>

theorem WillRun_precedes_compileAndRun:
  "\<exists>bs. length bs \<le> length suites \<and> list_all run_block bs \<and>
     filter is_suite_event (trace (state_of (runSuites c suites passed st))) =
       filter is_suite_event (trace st) @ concat (map suite_block (zip suites bs)) \<and>
     completed (runSuites c suites passed st) = (length bs = length suites)"
  by (rule runSuites_suite_events)

theorem WillRun_precedes_compileAndRun_witness:
  "(\<exists>bs. length bs \<le> length [suiteA, broken] \<and> list_all run_block bs \<and>
     filter is_suite_event
       (trace (state_of (runSuites (scripted [] no_delta [] 9) [suiteA, broken] True idle))) =
       filter is_suite_event (trace idle) @ concat (map suite_block (zip [suiteA, broken] bs)) \<and>
     completed (runSuites (scripted [] no_delta [] 9) [suiteA, broken] True idle) =
       (length bs = length [suiteA, broken])) \<and>
   filter is_suite_event
     (trace (state_of (runSuites (scripted [] no_delta [] 9) [suiteA, broken] True idle))) =
     [Call_WillRun suiteA, Call_CompileSuite suiteA, Call_RunCompiledSuite suiteA 1 False,
      Call_Cleanup (suiteA\<lparr>Passed := True\<rparr>), Call_WillRun broken, Call_CompileSuite broken]"
proof -
  have "filter is_suite_event
     (trace (state_of (runSuites (scripted [] no_delta [] 9) [suiteA, broken] True idle))) =
     [Call_WillRun suiteA, Call_CompileSuite suiteA, Call_RunCompiledSuite suiteA 1 False,
      Call_Cleanup (suiteA\<lparr>Passed := True\<rparr>), Call_WillRun broken, Call_CompileSuite broken]"
    by (simp add: run_defs demo_defs is_suite_event_def)
  with WillRun_precedes_compileAndRun [of "[suiteA, broken]" "scripted [] no_delta [] 9" True idle]
  show ?thesis by blast
qed

text \<open>
  C1 as it is stated asks that the tracker is told only after the suite's
  compile-and-run. With one suite and no interrupt, \<^verbatim>\<open>WillRun\<close> is called for the suite
  before anything has been compiled.
\<close>

theorem marked_after_compile_counterexample:
  "\<not> marked_after_compile []
       (trace (state_of (runSuites (scripted [] no_delta [] 9) [suiteA] True idle)))"
  by (simp add: run_defs demo_defs)

subsection \<open>C2: the interrupt check before each suite\<close>

text \<open>
  C2. In a tick whose run list is \<open>pre @ suite # post\<close>, if the suites of \<open>pre\<close> have been
  attempted and \<^verbatim>\<open>WasInterrupted\<close> answers true in the check before \<open>suite\<close>, then the
  loop over the run list ends there, the tick makes \<^verbatim>\<open>WatchSpecs\<close> return, and so does the
  watch loop. The final trace is the trace after \<open>pre\<close> followed by the check alone:
  nothing is done for \<open>suite\<close> or for \<open>post\<close>, and what was done for \<open>pre\<close> stays.
\<close>

theorem interrupt_before_suite_exits_loop:
  assumes "do_select c st0 = (Ticker_C, st)"
    and "runList (tick_delta c st) = pre @ suite # post"
    and "runSuites c pre True (tick_start c st) = Completed p st1"
    and "WasInterrupted c (world st1) = (True, w)"
  shows "runSuites c (pre @ suite # post) True (tick_start c st) =
           Interrupted (st1\<lparr>world := w, trace := trace st1 @ [Call_WasInterrupted True]\<rparr>) \<and>
         tick c st = Return (st1\<lparr>world := w, trace := trace st1 @ [Call_WasInterrupted True]\<rparr>) \<and>
         watch_loop (Suc n) c st0 =
           Return (st1\<lparr>world := w, trace := trace st1 @ [Call_WasInterrupted True]\<rparr>)"
proof -
  have chk: "do_WasInterrupted c st1 =
               (True, st1\<lparr>world := w, trace := trace st1 @ [Call_WasInterrupted True]\<rparr>)"
    using assms(4) by (simp add: call_defs emit_def)
  have run: "runSuites c (pre @ suite # post) True (tick_start c st) =
           Interrupted (st1\<lparr>world := w, trace := trace st1 @ [Call_WasInterrupted True]\<rparr>)"
    using assms(3) chk by (simp add: runSuites_append runSuites_Cons)
  have t: "tick c st = Return (st1\<lparr>world := w, trace := trace st1 @ [Call_WasInterrupted True]\<rparr>)"
    using run assms(2) by (simp add: tick_eq)
  have "watch_loop (Suc n) c st0 =
           Return (st1\<lparr>world := w, trace := trace st1 @ [Call_WasInterrupted True]\<rparr>)"
    using t assms(1) by (simp add: iteration_def)
  with run t show ?thesis by simp
qed

theorem interrupt_before_suite_exits_loop_witness:
  "do_select (scripted [suiteA, suiteB] two_new [] 2) idle = (Ticker_C, emit (Call_select Ticker_C) idle) \<and>
   runList (tick_delta (scripted [suiteA, suiteB] two_new [] 2) (emit (Call_select Ticker_C) idle)) =
     [suiteA] @ suiteB # [] \<and>
   watch_loop (Suc 0) (scripted [suiteA, suiteB] two_new [] 2) idle =
     Return (idle\<lparr>RandomSeed := 42, Succinct := True, world := 3,
                 trace := [Call_select Ticker_C, Call_FindSuites, Call_Delta [suiteA, suiteB],
                           Print (DetectedNew 2), Print (SuiteLine ''pkg/a''), Print (SuiteLine ''pkg/b''),
                           Call_Now, Call_WasInterrupted False, Call_WillRun suiteA,
                           Call_CompileSuite suiteA, Call_WasInterrupted False,
                           Call_RunCompiledSuite suiteA 42 True,
                           Call_Cleanup (suiteA\<lparr>Passed := True\<rparr>),
                           Call_WasInterrupted True]\<rparr>)"
proof -
  let ?c = "scripted [suiteA, suiteB] two_new [] 2"
  let ?st = "emit (Call_select Ticker_C) idle"
  let ?st1 = "idle\<lparr>RandomSeed := 42, Succinct := True, world := 2,
                 trace := [Call_select Ticker_C, Call_FindSuites, Call_Delta [suiteA, suiteB],
                           Print (DetectedNew 2), Print (SuiteLine ''pkg/a''), Print (SuiteLine ''pkg/b''),
                           Call_Now, Call_WasInterrupted False, Call_WillRun suiteA,
                           Call_CompileSuite suiteA, Call_WasInterrupted False,
                           Call_RunCompiledSuite suiteA 42 True,
                           Call_Cleanup (suiteA\<lparr>Passed := True\<rparr>)]\<rparr>"
  have h1: "do_select ?c idle = (Ticker_C, ?st)"
    by (simp add: call_defs idle_def)
  have h2: "runList (tick_delta ?c ?st) = [suiteA] @ suiteB # []"
    by (simp add: run_defs demo_defs)
  have h3: "runSuites ?c [suiteA] True (tick_start ?c ?st) = Completed True ?st1"
    by (simp add: run_defs demo_defs)
  have h4: "WasInterrupted ?c (world ?st1) = (True, 3)"
    by simp
  show ?thesis
    using h1 h2 interrupt_before_suite_exits_loop [OF h1 h2 h3 h4, of 0]
    by simp
qed

subsection \<open>C3: no suites\<close>

text \<open>
  C3. If the first discovery returns no suite, \<^verbatim>\<open>WatchSpecs\<close> aborts with the message
  \<^verbatim>\<open>Found no test suites\<close>, whatever the number of rounds allowed to the loop: nothing
  but the discovery has happened. In a tick whose delta has no new and no modified
  suite, only the discovery and the delta are called, nothing is printed or run, and
  the watch loop goes on to its next round.
\<close>

theorem no_suites_fatal_only_at_startup:
  "(FindSuites c (world st) = ([], w) \<longrightarrow>
      WatchSpecs n c st =
        Abort ''Found no test suites'' (st\<lparr>world := w, trace := trace st @ [Call_FindSuites]\<rparr>)) \<and>
   (do_select c st0 = (Ticker_C, st) \<longrightarrow>
    FindSuites c (world st) = (found, w1) \<longrightarrow>
    DeltaTracker_Delta c found w1 = ((delta, errs), w2) \<longrightarrow>
    NewSuites delta = [] \<longrightarrow> ModifiedSuites delta = [] \<longrightarrow>
      tick c st = Continue (st\<lparr>world := w2, trace := trace st @ [Call_FindSuites, Call_Delta found]\<rparr>) \<and>
      watch_loop (Suc n) c st0 =
        watch_loop n c (st\<lparr>world := w2, trace := trace st @ [Call_FindSuites, Call_Delta found]\<rparr>))"
proof (intro conjI impI)
  assume "FindSuites c (world st) = ([], w)"
  then show "WatchSpecs n c st =
        Abort ''Found no test suites'' (st\<lparr>world := w, trace := trace st @ [Call_FindSuites]\<rparr>)"
    by (simp add: WatchSpecs_def startup_def call_defs emit_def)
next
  assume a: "do_select c st0 = (Ticker_C, st)" "FindSuites c (world st) = (found, w1)"
    "DeltaTracker_Delta c found w1 = ((delta, errs), w2)"
    "NewSuites delta = []" "ModifiedSuites delta = []"
  show t: "tick c st = Continue (st\<lparr>world := w2, trace := trace st @ [Call_FindSuites, Call_Delta found]\<rparr>)"
    using a(2-5) by (simp add: tick_def affectedSuites_def call_defs emit_def)
  show "watch_loop (Suc n) c st0 =
        watch_loop n c (st\<lparr>world := w2, trace := trace st @ [Call_FindSuites, Call_Delta found]\<rparr>)"
    using a(1) t by (simp add: iteration_def)
qed

theorem no_suites_fatal_only_at_startup_witness:
  "FindSuites (scripted [] no_delta [] 9) (world idle) = ([], 0) \<and>
   WatchSpecs 5 (scripted [] no_delta [] 9) idle =
     Abort ''Found no test suites'' (idle\<lparr>trace := [Call_FindSuites]\<rparr>) \<and>
   do_select (scripted [suiteA] no_delta [] 9) idle = (Ticker_C, emit (Call_select Ticker_C) idle) \<and>
   NewSuites no_delta = [] \<and> ModifiedSuites no_delta = [] \<and>
   tick (scripted [suiteA] no_delta [] 9) (emit (Call_select Ticker_C) idle) =
     Continue (idle\<lparr>trace := [Call_select Ticker_C, Call_FindSuites, Call_Delta [suiteA]]\<rparr>) \<and>
   watch_loop (Suc 0) (scripted [suiteA] no_delta [] 9) idle =
     Continue (idle\<lparr>trace := [Call_select Ticker_C, Call_FindSuites, Call_Delta [suiteA]]\<rparr>)"
proof -
  have h1: "FindSuites (scripted [] no_delta [] 9) (world idle) = ([], 0)"
    by (simp add: idle_def)
  have h2: "do_select (scripted [suiteA] no_delta [] 9) idle = (Ticker_C, emit (Call_select Ticker_C) idle)"
    by (simp add: call_defs idle_def)
  have h3: "FindSuites (scripted [suiteA] no_delta [] 9) (world (emit (Call_select Ticker_C) idle)) = ([suiteA], 0)"
    by (simp add: idle_def)
  have h4: "DeltaTracker_Delta (scripted [suiteA] no_delta [] 9) [suiteA] 0 = ((no_delta, []), 0)"
    by simp
  have h5: "NewSuites no_delta = []" "ModifiedSuites no_delta = []"
    by (simp_all add: no_delta_def)
  show ?thesis
    using h1 h2 h5
      no_suites_fatal_only_at_startup [of "scripted [] no_delta [] 9" idle 0 5]
      no_suites_fatal_only_at_startup [of "scripted [suiteA] no_delta [] 9" "emit (Call_select Ticker_C) idle"
        0 0 idle "[suiteA]" 0 no_delta "[]" 0]
    by (simp add: idle_def emit_def)
qed

subsection \<open>C4: the errors that the tracker returns\<close>

text \<open>
  C4, as the code has it. At startup, when suites were found and the tracker could be
  built, each error that \<^verbatim>\<open>Delta\<close> returns is printed as a line \<^verbatim>\<open>Failed to watch\<close>, and
  the command goes on to the watch loop. In a tick no such line is printed, and the tick
  is the same as with a tracker that reports no error: the errors are dropped, they
  change neither the output nor the outcome.
\<close>

theorem Delta_errors_printed_at_startup_only:
  "(FindSuites c (world st) = (found, w1) \<longrightarrow> found \<noteq> [] \<longrightarrow>
    regexp_compiles c (WatchRegExp st) \<longrightarrow>
    DeltaTracker_Delta c found (NewDeltaTracker c (Depth st) (WatchRegExp st) w1) = ((delta, errs), w2) \<longrightarrow>
      filter is_failure_line (trace (final (startup c st))) =
        filter is_failure_line (trace st) @
        map (\<lambda>(suite, err). Print (FailedToWatch (PackageName suite) err)) errs \<and>
      startup c st = Continue (final (startup c st))) \<and>
   filter is_failure_line (trace (final (tick c st))) = filter is_failure_line (trace st) \<and>
   tick (ignoring_errors c) st = tick c st"
proof (intro conjI impI)
  assume F: "FindSuites c (world st) = (found, w1)" and ne: "found \<noteq> []"
    and re: "regexp_compiles c (WatchRegExp st)"
    and D: "DeltaTracker_Delta c found (NewDeltaTracker c (Depth st) (WatchRegExp st) w1) = ((delta, errs), w2)"
  define st7 where "st7 = st\<lparr>world := w2,
                   trace := trace st @
                     [Call_FindSuites, Print (Identified (length found) (Depth st)),
                      Call_NewDeltaTracker (Depth st), Call_Delta found,
                      Print (Watching (length (NewSuites delta)))] @
                     map (\<lambda>x. Print (SuiteLine (Description x))) (NewSuites delta) @
                     map (\<lambda>(suite, err). Print (FailedToWatch (PackageName suite) err)) errs\<rparr>"
  define st8 where "st8 = snd (compileAndRun c (found ! 0) (updateSeed c st7))"
  have s7: "filter is_failure_line (trace st7) =
        filter is_failure_line (trace st) @
        map (\<lambda>(suite, err). Print (FailedToWatch (PackageName suite) err)) errs"
    by (simp add: st7_def filter_map comp_def case_prod_beta)
  have s8: "filter is_failure_line (trace st8) = filter is_failure_line (trace st7)"
    by (simp add: st8_def compileAndRun_filter [OF run_event_not_failure_line] updateSeed_fields)
  have fin: "startup c st = Continue (emit Call_NewTicker (if length found = 1 then st8 else st7))"
    unfolding st8_def st7_def using startup_eq [OF F ne re D] by (simp only: Let_def)
  show "filter is_failure_line (trace (final (startup c st))) =
        filter is_failure_line (trace st) @
        map (\<lambda>(suite, err). Print (FailedToWatch (PackageName suite) err)) errs"
    using s7 s8 by (simp add: fin)
  show "startup c st = Continue (final (startup c st))"
    by (simp add: fin)
next
  show "filter is_failure_line (trace (final (tick c st))) = filter is_failure_line (trace st)"
    using tick_filter [of is_failure_line c st] by simp
next
  show "tick (ignoring_errors c) st = tick c st"
    by (rule ignoring_errors_tick)
qed

theorem Delta_errors_printed_at_startup_only_witness:
  "FindSuites (scripted [suiteA, suiteB] one_new unwatchable 9) (world idle) = ([suiteA, suiteB], 0) \<and>
   [suiteA, suiteB] \<noteq> [] \<and>
   regexp_compiles (scripted [suiteA, suiteB] one_new unwatchable 9) (WatchRegExp idle) \<and>
   DeltaTracker_Delta (scripted [suiteA, suiteB] one_new unwatchable 9) [suiteA, suiteB]
     (NewDeltaTracker (scripted [suiteA, suiteB] one_new unwatchable 9) (Depth idle) (WatchRegExp idle) 0) =
     ((one_new, unwatchable), 0) \<and>
   filter is_failure_line
     (trace (final (startup (scripted [suiteA, suiteB] one_new unwatchable 9) idle))) =
     [Print (FailedToWatch ''b'' ''no such package'')] \<and>
   filter is_failure_line
     (trace (final (tick (scripted [suiteA, suiteB] one_new unwatchable 9) idle))) = []"
proof -
  let ?c = "scripted [suiteA, suiteB] one_new unwatchable 9"
  have h1: "FindSuites ?c (world idle) = ([suiteA, suiteB], 0)"
    by (simp add: idle_def)
  have h2: "[suiteA, suiteB] \<noteq> []"
    by simp
  have h3: "regexp_compiles ?c (WatchRegExp idle)"
    by simp
  have h4: "DeltaTracker_Delta ?c [suiteA, suiteB]
     (NewDeltaTracker ?c (Depth idle) (WatchRegExp idle) 0) = ((one_new, unwatchable), 0)"
    by simp
  show ?thesis
    using h1 h2 h3 h4
      Delta_errors_printed_at_startup_only [of ?c idle "[suiteA, suiteB]" 0 one_new unwatchable 0]
    by (simp add: idle_def unwatchable_def suiteB_def)
qed

text \<open>
  C4 as it is stated asks that the errors are shown in every tick. In this tick the
  tracker returns an error for the second suite, and the trace has no line for it.
\<close>

theorem Delta_errors_on_tick_counterexample:
  "snd (fst (DeltaTracker_Delta (scripted [suiteA, suiteB] one_new unwatchable 9) [suiteA, suiteB] 0)) =
     [(suiteB, ''no such package'')] \<and>
   Print (FailedToWatch (PackageName suiteB) ''no such package'') \<notin>
     set (trace (final (tick (scripted [suiteA, suiteB] one_new unwatchable 9) idle)))"
  by (simp add: tick_def run_defs demo_defs one_new_def unwatchable_def)

subsection \<open>C5: the order of the run list\<close>



subsection \<open>C6: the seed of a cycle\<close>

text \<open>
  C6, as the code has it. \<^verbatim>\<open>updateSeed\<close> keeps the prior seed when the caller has set
  the flag \<^verbatim>\<open>seed\<close>, and otherwise replaces it by the time of the clock. A tick reads
  the clock at most once: once when its run list is not empty and the flag is not set,
  never otherwise. The seed at the end of the tick is the prior seed, or the time read
  after the delta; every run of the tick is given that seed.
\<close>

theorem updateSeed_once_per_cycle:
  "RandomSeed (updateSeed c st) =
     (if WasSet st ''seed'' then RandomSeed st else fst (Now_Unix c (world st))) \<and>
   filter (\<lambda>e. e = Call_Now) (trace (final (tick c st))) =
     filter (\<lambda>e. e = Call_Now) (trace st) @
     (if runList (tick_delta c st) \<noteq> [] \<and> \<not> WasSet st ''seed'' then [Call_Now] else []) \<and>
   RandomSeed (final (tick c st)) =
     (if runList (tick_delta c st) = [] \<or> WasSet st ''seed'' then RandomSeed st
      else fst (Now_Unix c
                  (world (snd (do_Delta c (fst (do_FindSuites c st)) (snd (do_FindSuites c st))))))) \<and>
   (\<exists>k. map fst (run_configs (trace (final (tick c st)))) =
         map fst (run_configs (trace st)) @ replicate k (RandomSeed (final (tick c st))))"
proof -
  have a: "filter (\<lambda>e. e = Call_Now) (trace (final (tick c st))) =
     filter (\<lambda>e. e = Call_Now) (trace st) @
     (if runList (tick_delta c st) \<noteq> [] \<and> \<not> WasSet st ''seed'' then [Call_Now] else [])"
    using tick_filter [of "\<lambda>e. e = Call_Now" c st] by simp
  obtain k where "run_configs (trace (final (tick c st))) =
        run_configs (trace st) @
        replicate k (RandomSeed (final (tick c st)), Succinct (final (tick c st)))"
    using tick_run_configs [of c st] by blast
  then have "map fst (run_configs (trace (final (tick c st)))) =
         map fst (run_configs (trace st)) @ replicate k (RandomSeed (final (tick c st)))"
    by simp
  then have b: "\<exists>k. map fst (run_configs (trace (final (tick c st)))) =
         map fst (run_configs (trace st)) @ replicate k (RandomSeed (final (tick c st)))"
    by blast
  from a b tick_config(1) [of c st] show ?thesis
    by (simp only: updateSeed_fields(4) simp_thms)
qed

theorem updateSeed_once_per_cycle_witness:
  "RandomSeed (updateSeed (scripted [suiteA, suiteB] two_new [] 9) (idle\<lparr>WasSet := (\<lambda>f. f = ''seed'')\<rparr>)) = 1 \<and>
   RandomSeed (updateSeed (scripted [suiteA, suiteB] two_new [] 9) idle) = 42 \<and>
   filter (\<lambda>e. e = Call_Now) (trace (final (tick (scripted [suiteA, suiteB] two_new [] 9) idle))) =
     [Call_Now] \<and>
   RandomSeed (final (tick (scripted [suiteA, suiteB] two_new [] 9) idle)) = 42 \<and>
   map fst (run_configs (trace (final (tick (scripted [suiteA, suiteB] two_new [] 9) idle)))) =
     [42, 42]"
proof -
  let ?c = "scripted [suiteA, suiteB] two_new [] 9"
  have r: "runList (tick_delta ?c idle) = [suiteA, suiteB]"
    by (simp add: run_defs demo_defs)
  have t: "map fst (run_configs (trace (final (tick ?c idle)))) = [42, 42]"
    by (simp add: tick_eq r, simp add: tick_start_def r, simp add: run_defs demo_defs run_configs_def printMessages_eq)
  show ?thesis
    using updateSeed_once_per_cycle [of ?c "idle\<lparr>WasSet := (\<lambda>f. f = ''seed'')\<rparr>"]
      updateSeed_once_per_cycle [of ?c idle] r t
    by (simp add: idle_def)
qed

text \<open>
  C6 as it is stated says that the prior seed is reused unless the caller has set one.
  Here the caller has set none, and the prior seed 1 is replaced by the time 42.
\<close>

theorem prior_seed_reused_counterexample:
  "WasSet idle ''seed'' = False \<and>
   RandomSeed idle = 1 \<and>
   RandomSeed (updateSeed (scripted [] no_delta [] 9) idle) = 42"
  by (simp add: run_defs demo_defs)

subsection \<open>C7: the display mode of a cycle\<close>

text \<open>
  C7. \<^verbatim>\<open>computeSuccinctMode\<close> leaves the verbose flag as it is and sets the succinct flag:
  off in verbose mode; else as the caller has set it when the flag \<^verbatim>\<open>succinct\<close> was set;
  else off for one suite and on for more than one. A tick with a run list decides with
  the length of the list, once; the flag at the end of the tick is that decision, and
  every run of the tick is given it.
\<close>

theorem computeSuccinctMode_once_per_cycle:
  "Succinct (computeSuccinctMode n st) =
     (if Verbose st then False
      else if WasSet st ''succinct'' then Succinct st
      else if n = 1 then False
      else if n > 1 then True
      else Succinct st) \<and>
   Verbose (computeSuccinctMode n st) = Verbose st \<and>
   Succinct (final (tick c st)) =
     (if runList (tick_delta c st) = [] then Succinct st
      else Succinct (computeSuccinctMode (int (length (runList (tick_delta c st)))) st)) \<and>
   (\<exists>k. map snd (run_configs (trace (final (tick c st)))) =
         map snd (run_configs (trace st)) @ replicate k (Succinct (final (tick c st))))"
proof -
  obtain k where "run_configs (trace (final (tick c st))) =
        run_configs (trace st) @
        replicate k (RandomSeed (final (tick c st)), Succinct (final (tick c st)))"
    using tick_run_configs [of c st] by blast
  then have "map snd (run_configs (trace (final (tick c st)))) =
         map snd (run_configs (trace st)) @ replicate k (Succinct (final (tick c st)))"
    by simp
  then have b: "\<exists>k. map snd (run_configs (trace (final (tick c st)))) =
         map snd (run_configs (trace st)) @ replicate k (Succinct (final (tick c st)))"
    by blast
  show ?thesis
    using b tick_config(2) [of c st]
    by (simp add: computeSuccinctMode_Succinct computeSuccinctMode_fields)
qed

theorem computeSuccinctMode_once_per_cycle_witness:
  "Succinct (computeSuccinctMode 1 (idle\<lparr>Succinct := True\<rparr>)) = False \<and>
   Succinct (computeSuccinctMode 2 idle) = True \<and>
   Succinct (computeSuccinctMode 2 (idle\<lparr>Verbose := True, Succinct := True, WasSet := (\<lambda>f. f = ''succinct'')\<rparr>)) = False \<and>
   Succinct (computeSuccinctMode 1 (idle\<lparr>Succinct := True, WasSet := (\<lambda>f. f = ''succinct'')\<rparr>)) = True \<and>
   Succinct (final (tick (scripted [suiteA, suiteB] two_new [] 9) idle)) = True \<and>
   map snd (run_configs (trace (final (tick (scripted [suiteA, suiteB] two_new [] 9) idle)))) =
     [True, True]"
proof -
  let ?c = "scripted [suiteA, suiteB] two_new [] 9"
  have r: "runList (tick_delta ?c idle) = [suiteA, suiteB]"
    by (simp add: run_defs demo_defs)
  have t: "map snd (run_configs (trace (final (tick ?c idle)))) = [True, True]"
    by (simp add: tick_eq r, simp add: tick_start_def r, simp add: run_defs demo_defs run_configs_def printMessages_eq)
  show ?thesis
    using computeSuccinctMode_once_per_cycle [of 1 "idle\<lparr>Succinct := True\<rparr>" ?c]
      computeSuccinctMode_once_per_cycle [of 2 idle ?c]
      computeSuccinctMode_once_per_cycle [of 2 "idle\<lparr>Verbose := True, Succinct := True, WasSet := (\<lambda>f. f = ''succinct'')\<rparr>" ?c]
      computeSuccinctMode_once_per_cycle [of 1 "idle\<lparr>Succinct := True, WasSet := (\<lambda>f. f = ''succinct'')\<rparr>" ?c]
      r t
    by (simp add: idle_def)
qed

subsection \<open>C8: a suite that does not compile\<close>

text \<open>
  C8. If the interrupt is not set before a suite and the compilation of the suite fails,
  then \<^verbatim>\<open>compileAndRun\<close> returns false, the error is printed and nothing is run, the loop
  goes on with the rest of the run list and with \<^verbatim>\<open>passed\<close> false, and the loop does
  not end with \<^verbatim>\<open>passed\<close> true.
\<close>

theorem compile_failure_fails_suite_and_continues:
  assumes "WasInterrupted c (world st) = (False, w1)"
    and "CompileSuite c suite (DeltaTracker_WillRun c suite w1) = (suite1, w2)"
    and "CompilationError suite1 = Some err"
  shows "fst (compileAndRun c suite (do_WillRun c suite (snd (do_WasInterrupted c st)))) = False \<and>
         runSuites c (suite # rest) passed st =
           runSuites c rest False
             (st\<lparr>world := w2,
                 trace := trace st @ [Call_WasInterrupted False, Call_WillRun suite,
                                      Call_CompileSuite suite, Print (ErrorText err)]\<rparr>) \<and>
         verdict (runSuites c (suite # rest) passed st) \<noteq> Some True"
proof -
  have car: "compileAndRun c suite (do_WillRun c suite (snd (do_WasInterrupted c st))) =
          (False, st\<lparr>world := w2,
                 trace := trace st @ [Call_WasInterrupted False, Call_WillRun suite,
                                      Call_CompileSuite suite, Print (ErrorText err)]\<rparr>)"
    using assms by (simp add: compileAndRun_def call_defs emit_def)
  have int: "fst (do_WasInterrupted c st) = False"
    using assms(1) by (simp add: call_defs)
  have step: "runSuites c (suite # rest) passed st =
           runSuites c rest False
             (st\<lparr>world := w2,
                 trace := trace st @ [Call_WasInterrupted False, Call_WillRun suite,
                                      Call_CompileSuite suite, Print (ErrorText err)]\<rparr>)"
    using car int by (simp add: runSuites_Cons)
  show ?thesis
    using car step by (simp add: runSuites_verdict_failed)
qed

theorem compile_failure_fails_suite_and_continues_witness:
  "WasInterrupted (scripted [] no_delta [] 9) (world idle) = (False, 1) \<and>
   CompileSuite (scripted [] no_delta [] 9) broken
     (DeltaTracker_WillRun (scripted [] no_delta [] 9) broken 1) =
     (broken\<lparr>CompilationError := Some ''build failed''\<rparr>, 1) \<and>
   runSuites (scripted [] no_delta [] 9) [broken, suiteA] True idle =
     Completed False
       (idle\<lparr>world := 3,
             trace := [Call_WasInterrupted False, Call_WillRun broken, Call_CompileSuite broken,
                       Print (ErrorText ''build failed''),
                       Call_WasInterrupted False, Call_WillRun suiteA, Call_CompileSuite suiteA,
                       Call_WasInterrupted False, Call_RunCompiledSuite suiteA 1 False,
                       Call_Cleanup (suiteA\<lparr>Passed := True\<rparr>)]\<rparr>)"
proof -
  have h1: "WasInterrupted (scripted [] no_delta [] 9) (world idle) = (False, 1)"
    by (simp add: scripted_def idle_def)
  have h2: "CompileSuite (scripted [] no_delta [] 9) broken
     (DeltaTracker_WillRun (scripted [] no_delta [] 9) broken 1) =
     (broken\<lparr>CompilationError := Some ''build failed''\<rparr>, 1)"
    by (simp add: scripted_def broken_def)
  have h3: "CompilationError (broken\<lparr>CompilationError := Some ''build failed''\<rparr>) = Some ''build failed''"
    by simp
  show ?thesis
    using h1 h2 compile_failure_fails_suite_and_continues [OF h1 h2 h3, of "[suiteA]" True]
    by (simp add: runSuites_Cons compileAndRun_def call_defs emit_def scripted_def idle_def suiteA_def)
qed

subsection \<open>C9: the immediate run at startup\<close>



subsection \<open>C10: the interrupt between compilation and run\<close>

text \<open>
  C10. If the compilation of a suite succeeds and \<^verbatim>\<open>WasInterrupted\<close> then answers true,
  \<^verbatim>\<open>compileAndRun\<close> returns false and the trace gains the compilation and the check
  only: the compiled suite is not run. The loop that goes on with this result does not
  end with \<^verbatim>\<open>passed\<close> true.
\<close>

theorem compileAndRun_interrupted_after_compile:
  assumes "CompileSuite c suite (world st) = (suite1, w1)"
    and "CompilationError suite1 = None"
    and "WasInterrupted c w1 = (True, w2)"
  shows "compileAndRun c suite st =
           (False, st\<lparr>world := w2,
                      trace := trace st @ [Call_CompileSuite suite, Call_WasInterrupted True]\<rparr>) \<and>
         verdict (runSuites c rest (fst (compileAndRun c suite st) \<and> passed)
                    (snd (compileAndRun c suite st))) \<noteq> Some True"
proof -
  have 1: "compileAndRun c suite st =
           (False, st\<lparr>world := w2,
                      trace := trace st @ [Call_CompileSuite suite, Call_WasInterrupted True]\<rparr>)"
    using assms by (simp add: compileAndRun_def call_defs emit_def)
  then show ?thesis by (simp add: runSuites_verdict_failed)
qed

theorem compileAndRun_interrupted_after_compile_witness:
  "CompileSuite (scripted [] no_delta [] 0) suiteA (world idle) = (suiteA, 0) \<and>
   CompilationError suiteA = None \<and>
   WasInterrupted (scripted [] no_delta [] 0) 0 = (True, 1) \<and>
   compileAndRun (scripted [] no_delta [] 0) suiteA idle =
     (False, idle\<lparr>world := 1, trace := [Call_CompileSuite suiteA, Call_WasInterrupted True]\<rparr>) \<and>
   verdict (runSuites (scripted [] no_delta [] 0) []
              (fst (compileAndRun (scripted [] no_delta [] 0) suiteA idle) \<and> True)
              (snd (compileAndRun (scripted [] no_delta [] 0) suiteA idle))) \<noteq> Some True"
proof -
  have h1: "CompileSuite (scripted [] no_delta [] 0) suiteA (world idle) = (suiteA, 0)"
    by (simp add: scripted_def suiteA_def idle_def)
  have h2: "CompilationError suiteA = None"
    by (simp add: suiteA_def)
  have h3: "WasInterrupted (scripted [] no_delta [] 0) 0 = (True, 1)"
    by (simp add: scripted_def)
  show ?thesis
    using h1 h2 h3 compileAndRun_interrupted_after_compile [OF h1 h2 h3, of "[]" True]
    by (simp add: idle_def)
qed

end
